theory Spec2Isabelle
  imports Main
begin

section \<open>Python string primitives used by load_env.py\<close>

text \<open>
  A Python \<open>str\<close> is a sequence of code points. The model uses \<open>string\<close>, reading
  each \<open>char\<close> as a code point below 256; the input of the parser is the text that
  \<open>read_text(encoding="utf-8")\<close> returned, not its bytes.
\<close>

definition isspace :: "char \<Rightarrow> bool" where
  \<comment> \<open>\<open>str.isspace\<close> on one code point below 256: the characters \<open>str.strip()\<close> removes.\<close>
  "isspace c = (c \<in> set [CHR 0x09, CHR 0x0A, CHR 0x0B, CHR 0x0C, CHR 0x0D,
                          CHR 0x1C, CHR 0x1D, CHR 0x1E, CHR 0x1F, CHR 0x20,
                          CHR 0x85, CHR 0xA0])"

definition strip_with :: "(char \<Rightarrow> bool) \<Rightarrow> string \<Rightarrow> string" where
  \<comment> \<open>removes every leading and every trailing character that satisfies \<open>p\<close>\<close>
  "strip_with p s = rev (dropWhile p (rev (dropWhile p s)))"

definition strip :: "string \<Rightarrow> string" where
  \<comment> \<open>\<open>s.strip()\<close>\<close>
  "strip s = strip_with isspace s"

definition strip_chars :: "string \<Rightarrow> string \<Rightarrow> string" where
  \<comment> \<open>\<open>s.strip(chars)\<close>\<close>
  "strip_chars chars s = strip_with (\<lambda>c. c \<in> set chars) s"

definition startswith :: "string \<Rightarrow> string \<Rightarrow> bool" where
  \<comment> \<open>\<open>s.startswith(prefix)\<close>\<close>
  "startswith s prefix = (take (length prefix) s = prefix)"

definition is_linebreak :: "char \<Rightarrow> bool" where
  \<comment> \<open>the line boundaries of \<open>str.splitlines\<close> below 256; CR LF counts once\<close>
  "is_linebreak c = (c \<in> set [CHR 0x0A, CHR 0x0B, CHR 0x0C, CHR 0x0D,
                              CHR 0x1C, CHR 0x1D, CHR 0x1E, CHR 0x85])"

fun splitlines_from :: "string \<Rightarrow> string \<Rightarrow> string list" where
  \<comment> \<open>the first argument is the current line so far, reversed\<close>
  "splitlines_from cur [] = (if cur = [] then [] else [rev cur])"
| "splitlines_from cur [c] = (if is_linebreak c then [rev cur] else [rev (c # cur)])"
| "splitlines_from cur (c # d # cs) =
     (if c = CHR 0x0D \<and> d = CHR 0x0A then rev cur # splitlines_from [] cs
      else if is_linebreak c then rev cur # splitlines_from [] (d # cs)
      else splitlines_from (c # cur) (d # cs))"

definition splitlines :: "string \<Rightarrow> string list" where
  \<comment> \<open>\<open>s.splitlines()\<close>: no line breaks kept, no empty last line after a final break\<close>
  "splitlines s = splitlines_from [] s"

definition split_once :: "char \<Rightarrow> string \<Rightarrow> string list" where
  \<comment> \<open>\<open>s.split(sep, 1)\<close> for a separator of one character\<close>
  "split_once sep s =
     (if sep \<in> set s
      then [takeWhile (\<lambda>c. c \<noteq> sep) s, tl (dropWhile (\<lambda>c. c \<noteq> sep) s)]
      else [s])"

datatype error = ValueError

type_synonym env_table = "string \<rightharpoonup> string"

definition get :: "env_table \<Rightarrow> string \<Rightarrow> string \<Rightarrow> string" where
  \<comment> \<open>\<open>d.get(key, default)\<close>\<close>
  "get d key dflt = (case d key of None \<Rightarrow> dflt | Some v \<Rightarrow> v)"

subsection \<open>int(str) and the decimal text of an int\<close>

definition int_isspace :: "char \<Rightarrow> bool" where
  \<comment> \<open>what \<open>int()\<close> skips around the literal: the ASCII white space of C, and the
      non-ASCII spaces, which it first rewrites to a blank; 0x1C to 0x1F are not skipped\<close>
  "int_isspace c = (c \<in> set [CHR 0x09, CHR 0x0A, CHR 0x0B, CHR 0x0C, CHR 0x0D, CHR 0x20,
                              CHR 0x85, CHR 0xA0])"

definition is_digit :: "char \<Rightarrow> bool" where
  "is_digit c = (c \<in> set ''0123456789'')"

definition digit_val :: "char \<Rightarrow> nat" where
  "digit_val c = of_char c - 48"

fun valid_digits :: "string \<Rightarrow> bool" where
  \<comment> \<open>at least one digit; an underscore only between two digits\<close>
  "valid_digits [] = False"
| "valid_digits [c] = is_digit c"
| "valid_digits (c # d # cs) =
     (is_digit c \<and> (if d = CHR ''_'' then valid_digits cs else valid_digits (d # cs)))"

definition nat_of_digits :: "string \<Rightarrow> nat" where
  "nat_of_digits ds = foldl (\<lambda>n c. 10 * n + digit_val c) 0 (filter is_digit ds)"

definition int_max_str_digits :: nat where
  \<comment> \<open>the default of \<open>sys.int_max_str_digits\<close>\<close>
  "int_max_str_digits = 4300"

definition py_int :: "string \<Rightarrow> error + int" where
  \<comment> \<open>\<open>int(s)\<close> in base 10: white space, an optional sign, the digits, white space\<close>
  "py_int s =
     (let t = dropWhile int_isspace s;
          neg = (case t of [] \<Rightarrow> False | c # _ \<Rightarrow> c = CHR ''-'');
          u = (case t of [] \<Rightarrow> [] | c # cs \<Rightarrow> if c = CHR ''+'' \<or> c = CHR ''-'' then cs else t);
          ds = takeWhile (\<lambda>c. is_digit c \<or> c = CHR ''_'') u;
          rest = dropWhile (\<lambda>c. is_digit c \<or> c = CHR ''_'') u
      in if valid_digits ds \<and> length (filter is_digit ds) \<le> int_max_str_digits
            \<and> dropWhile int_isspace rest = []
         then Inr (if neg then - int (nat_of_digits ds) else int (nat_of_digits ds))
         else Inl ValueError)"

fun str_nat :: "nat \<Rightarrow> string" where
  "str_nat n =
     (if n < 10 then [''0123456789'' ! n]
      else str_nat (n div 10) @ [''0123456789'' ! (n mod 10)])"

declare str_nat.simps [simp del]

definition str_int :: "int \<Rightarrow> string" where
  \<comment> \<open>the text an f-string puts for \<open>{i}\<close>\<close>
  "str_int i = (if i < 0 then CHR ''-'' # str_nat (nat (- i)) else str_nat (nat i))"

definition py_range :: "int \<Rightarrow> int \<Rightarrow> int list" where
  \<comment> \<open>\<open>range(a, b)\<close>\<close>
  "py_range a b = [a..b - 1]"

section \<open>The parser: \_parse\_env\_file\<close>

definition clean_value :: "string \<Rightarrow> string" where
  \<comment> \<open>line 17: \<open>v.strip().strip('"').strip("'")\<close>\<close>
  "clean_value v = strip_chars [CHR 0x27] (strip_chars [CHR 0x22] (strip v))"

definition parse_line :: "string \<Rightarrow> env_table \<Rightarrow> error + env_table" where
  \<comment> \<open>the body of the loop over the lines; unpacking \<open>k, v\<close> raises unless there are two parts\<close>
  "parse_line raw data =
     (let line = strip raw in
      if line = [] \<or> startswith line ''#'' then Inr data
      else if CHR ''='' \<notin> set line then Inr data
      else (case split_once CHR ''='' line of
              [k, v] \<Rightarrow> Inr (data(strip k \<mapsto> clean_value v))
            | _ \<Rightarrow> Inl ValueError))"

fun parse_lines :: "string list \<Rightarrow> env_table \<Rightarrow> error + env_table" where
  "parse_lines [] data = Inr data"
| "parse_lines (raw # rest) data =
     (case parse_line raw data of
        Inl e \<Rightarrow> Inl e
      | Inr data' \<Rightarrow> parse_lines rest data')"

definition parse_env_file :: "string option \<Rightarrow> error + env_table" where
  \<comment> \<open>the argument is what the path holds: \<open>None\<close> when it does not exist, else its text\<close>
  "parse_env_file path =
     (case path of
        None \<Rightarrow> Inr Map.empty
      | Some text \<Rightarrow> parse_lines (splitlines text) Map.empty)"

section \<open>The loader script\<close>

type_synonym define_set = "(string \<times> string) list"

definition quoted :: "string \<Rightarrow> string" where
  \<comment> \<open>the f-string of \<open>define_str\<close>: backslash, double quote, the value, backslash, double quote\<close>
  "quoted val = [CHR 0x5C, CHR 0x22] @ val @ [CHR 0x5C, CHR 0x22]"

definition define_str :: "env_table \<Rightarrow> string \<Rightarrow> string \<Rightarrow> define_set \<Rightarrow> define_set" where
  "define_str vars key dflt env = env @ [(key, quoted (get vars key dflt))]"

definition define_int :: "env_table \<Rightarrow> string \<Rightarrow> string \<Rightarrow> define_set \<Rightarrow> define_set" where
  "define_int vars key dflt env = env @ [(key, get vars key dflt)]"

fun wifi_slots :: "env_table \<Rightarrow> int list \<Rightarrow> define_set \<Rightarrow> define_set" where
  \<comment> \<open>the loop \<open>for i in range(1, WIFI_SLOTS_MAX + 1)\<close>\<close>
  "wifi_slots vars [] env = env"
| "wifi_slots vars (i # rest) env =
     wifi_slots vars rest
       (define_str vars (''WIFI_PASS'' @ str_int i) []
         (define_str vars (''WIFI_SSID'' @ str_int i) [] env))"

definition legacy_and_fixed :: "env_table \<Rightarrow> define_set \<Rightarrow> define_set" where
  \<comment> \<open>lines 49 to 68: the legacy pair, then the MQTT, backend and device macros\<close>
  "legacy_and_fixed vars env0 =
     (let ssid_legacy = get vars ''WIFI_SSID'' [];
          pass_legacy = get vars ''WIFI_PASS'' [];
          ssid1 = get vars ''WIFI_SSID1'' [];
          pass1 = get vars ''WIFI_PASS1'' [];
          env1 = define_str vars ''WIFI_SSID'' (if ssid_legacy \<noteq> [] then ssid_legacy else ssid1) env0;
          env2 = define_str vars ''WIFI_PASS'' (if pass_legacy \<noteq> [] then pass_legacy else pass1) env1;
          env3 = define_str vars ''MQTT_HOST_ONLINE'' (get vars ''MQTT_HOST_ONLINE'' []) env2;
          env4 = define_str vars ''MQTT_HOST_OFFLINE'' (get vars ''MQTT_HOST_OFFLINE'' ''192.168.31.108'') env3;
          env5 = define_int vars ''MQTT_PORT'' (get vars ''MQTT_PORT'' ''1883'') env4;
          env6 = define_str vars ''BACKEND_BASE'' (get vars ''BACKEND_BASE'' []) env5;
          env7 = define_str vars ''BACKEND_HOST'' (get vars ''BACKEND_HOST'' ''192.168.31.108'') env6;
          env8 = define_int vars ''BACKEND_PORT'' (get vars ''BACKEND_PORT'' ''5000'') env7
      in define_str vars ''DEVICE_ID'' (get vars ''DEVICE_ID'' ''esp32_001'') env8)"

definition load_env :: "string option \<Rightarrow> define_set \<Rightarrow> error + define_set" where
  \<comment> \<open>the script from line 25 on; \<open>env\<close> is the CPPDEFINES the build already holds\<close>
  "load_env path env =
     (case parse_env_file path of
        Inl e \<Rightarrow> Inl e
      | Inr vars \<Rightarrow>
          (case py_int (get vars ''WIFI_SLOTS_MAX'' ''10'') of
             Inl e \<Rightarrow> Inl e
           | Inr WIFI_SLOTS_MAX \<Rightarrow>
               Inr (legacy_and_fixed vars
                      (wifi_slots vars (py_range 1 (WIFI_SLOTS_MAX + 1)) env))))"

section \<open>The parser as the specification words it\<close>

text \<open>
  A line is kept when it is not blank, its first character that is not white space is
  not \<open>#\<close>, and it holds a \<open>=\<close>. The key is the trimmed text before the first
  \<open>=\<close>, the value the text after it, trimmed and with its quotes removed as line 17 does.
\<close>

definition spec_kept :: "string \<Rightarrow> bool" where
  "spec_kept raw =
     (case dropWhile isspace raw of
        [] \<Rightarrow> False
      | c # _ \<Rightarrow> c \<noteq> CHR ''#'' \<and> CHR ''='' \<in> set raw)"

definition spec_key :: "string \<Rightarrow> string" where
  "spec_key raw = strip (takeWhile (\<lambda>c. c \<noteq> CHR ''='') raw)"

definition spec_value :: "string \<Rightarrow> string" where
  "spec_value raw = clean_value (tl (dropWhile (\<lambda>c. c \<noteq> CHR ''='') raw))"

definition spec_lookup :: "string list \<Rightarrow> string \<Rightarrow> string option" where
  \<comment> \<open>the value of the last kept line with this key\<close>
  "spec_lookup ls k =
     (case filter (\<lambda>raw. spec_kept raw \<and> spec_key raw = k) ls of
        [] \<Rightarrow> None
      | e # es \<Rightarrow> Some (spec_value (last (e # es))))"

section \<open>The defines of one run, as lists\<close>

definition slot_pair :: "env_table \<Rightarrow> int \<Rightarrow> define_set" where
  \<comment> \<open>what one round of the slot loop appends\<close>
  "slot_pair vars i =
     [(''WIFI_SSID'' @ str_int i, quoted (get vars (''WIFI_SSID'' @ str_int i) [])),
      (''WIFI_PASS'' @ str_int i, quoted (get vars (''WIFI_PASS'' @ str_int i) []))]"

definition tail_defines :: "env_table \<Rightarrow> define_set" where
  \<comment> \<open>what lines 49 to 68 append: the legacy pair and the seven fixed keys\<close>
  "tail_defines vars =
     [(''WIFI_SSID'', quoted (case vars ''WIFI_SSID'' of
                                Some x \<Rightarrow> x | None \<Rightarrow> get vars ''WIFI_SSID1'' [])),
      (''WIFI_PASS'', quoted (case vars ''WIFI_PASS'' of
                                Some x \<Rightarrow> x | None \<Rightarrow> get vars ''WIFI_PASS1'' [])),
      (''MQTT_HOST_ONLINE'', quoted (get vars ''MQTT_HOST_ONLINE'' [])),
      (''MQTT_HOST_OFFLINE'', quoted (get vars ''MQTT_HOST_OFFLINE'' ''192.168.31.108'')),
      (''MQTT_PORT'', get vars ''MQTT_PORT'' ''1883''),
      (''BACKEND_BASE'', quoted (get vars ''BACKEND_BASE'' [])),
      (''BACKEND_HOST'', quoted (get vars ''BACKEND_HOST'' ''192.168.31.108'')),
      (''BACKEND_PORT'', get vars ''BACKEND_PORT'' ''5000''),
      (''DEVICE_ID'', quoted (get vars ''DEVICE_ID'' ''esp32_001''))]"

definition requested_keys :: "int \<Rightarrow> string list" where
  \<comment> \<open>the keys the script asks for when WIFI\_SLOTS\_MAX is \<open>n\<close>\<close>
  "requested_keys n =
     concat (map (\<lambda>i. [''WIFI_SSID'' @ str_int i, ''WIFI_PASS'' @ str_int i]) [1..n])
     @ [''WIFI_SSID'', ''WIFI_PASS'', ''MQTT_HOST_ONLINE'', ''MQTT_HOST_OFFLINE'',
        ''MQTT_PORT'', ''BACKEND_BASE'', ''BACKEND_HOST'', ''BACKEND_PORT'', ''DEVICE_ID'']"

section \<open>Properties\<close>

subsection \<open>Stripping\<close>

lemma dropWhile_strip_with: "dropWhile p s = strip_with p s @ rev (takeWhile p (rev (dropWhile p s)))"
proof -
  let ?r = "rev (dropWhile p s)"
  have "rev ?r = rev (takeWhile p ?r @ dropWhile p ?r)" by simp
  also have "\<dots> = rev (dropWhile p ?r) @ rev (takeWhile p ?r)" by (rule rev_append)
  finally show ?thesis by (simp add: strip_with_def)
qed

lemma strip_with_decomp:
  "\<exists>a b. s = a @ strip_with p s @ b \<and> (\<forall>c\<in>set a. p c) \<and> (\<forall>c\<in>set b. p c)
     \<and> dropWhile p s = strip_with p s @ b"
proof -
  let ?a = "takeWhile p s" and ?b = "rev (takeWhile p (rev (dropWhile p s)))"
  have "s = ?a @ dropWhile p s" by simp
  then have "s = ?a @ strip_with p s @ ?b"
    using dropWhile_strip_with [of p s] by simp
  moreover have "\<forall>c\<in>set ?a. p c" by (auto dest: set_takeWhileD)
  moreover have "\<forall>c\<in>set ?b. p c" by (auto dest: set_takeWhileD)
  ultimately show ?thesis
    using dropWhile_strip_with [of p s] by blast
qed

lemma strip_with_prepend: "\<forall>c\<in>set a. p c \<Longrightarrow> strip_with p (a @ s) = strip_with p s"
  by (simp add: strip_with_def dropWhile_append2)

lemma strip_with_append:
  assumes "\<forall>c\<in>set b. p c"
  shows "strip_with p (s @ b) = strip_with p s"
proof (cases "\<forall>c\<in>set s. p c")
  case True
  with assms have "dropWhile p (s @ b) = []" "dropWhile p s = []"
    by (simp_all add: dropWhile_eq_Nil_conv)
  then show ?thesis unfolding strip_with_def by (simp only:)
next
  case False
  then obtain x where x: "x \<in> set s" "\<not> p x" by blast
  then have "dropWhile p (s @ b) = dropWhile p s @ b"
    by (simp add: dropWhile_append1)
  moreover have "dropWhile p (rev b @ rev (dropWhile p s)) = dropWhile p (rev (dropWhile p s))"
    using assms by (intro dropWhile_append2) auto
  ultimately show ?thesis unfolding strip_with_def by (simp only: rev_append)
qed

lemma strip_with_ends:
  assumes "strip_with p s \<noteq> []"
  shows "\<not> p (hd (strip_with p s))" and "\<not> p (last (strip_with p s))"
proof -
  let ?d = "dropWhile p s"
  from assms have d: "?d \<noteq> []"
    by (cases "?d = []") (simp_all add: strip_with_def)
  have r: "dropWhile p (rev ?d) \<noteq> []" using assms by (simp add: strip_with_def)
  have "\<not> p (hd (dropWhile p (rev ?d)))" using r by (rule hd_dropWhile)
  then show "\<not> p (last (strip_with p s))"
    using r by (simp add: strip_with_def last_rev)
  have "\<not> p (hd ?d)" using d by (rule hd_dropWhile)
  moreover have "hd (strip_with p s) = hd ?d"
    using dropWhile_strip_with [of p s] assms by (metis hd_append2)
  ultimately show "\<not> p (hd (strip_with p s))" by simp
qed

lemma strip_with_id:
  assumes "s = [] \<or> (\<not> p (hd s) \<and> \<not> p (last s))"
  shows "strip_with p s = s"
proof (cases s)
  case Nil
  then show ?thesis by (simp add: strip_with_def)
next
  case (Cons x xs)
  with assms have h: "\<not> p (hd s)" "\<not> p (last s)" by auto
  from Cons h(1) have a: "dropWhile p s = s" by simp
  from Cons have "s \<noteq> []" by simp
  then obtain ys y where ys: "s = ys @ [y]" by (meson rev_exhaust)
  with h(2) have "dropWhile p (rev s) = rev s" by simp
  with a show ?thesis by (simp add: strip_with_def)
qed

subsection \<open>The parser\<close>

lemma not_isspace_eq: "\<not> isspace CHR ''=''"
  by (simp add: isspace_def)

lemma strip_sandwich:
  assumes a: "\<forall>c\<in>set a. isspace c" and b: "\<forall>c\<in>set b. isspace c"
    and m: "m = [] \<or> (\<not> isspace (hd m) \<and> \<not> isspace (last m))"
  shows "strip (a @ m @ b) = m"
proof -
  have "strip (a @ m @ b) = strip_with isspace (m @ b)"
    unfolding strip_def using a by (rule strip_with_prepend)
  also have "\<dots> = strip_with isspace m" using b by (rule strip_with_append)
  also have "\<dots> = m" using m by (rule strip_with_id)
  finally show ?thesis .
qed

lemma clean_value_append:
  assumes "\<forall>c\<in>set b. isspace c"
  shows "clean_value (v @ b) = clean_value v"
proof -
  have "strip (v @ b) = strip v"
    unfolding strip_def using assms by (rule strip_with_append)
  then show ?thesis unfolding clean_value_def by (simp only:)
qed

lemma parse_line_sandwich:
  assumes a: "\<forall>c\<in>set a. isspace c" and b: "\<forall>c\<in>set b. isspace c"
    and m: "m = [] \<or> (\<not> isspace (hd m) \<and> \<not> isspace (last m))"
  shows "parse_line (a @ m @ b) data =
     Inr (if spec_kept (a @ m @ b)
          then data(spec_key (a @ m @ b) \<mapsto> spec_value (a @ m @ b)) else data)"
proof -
  let ?raw = "a @ m @ b" and ?ne = "\<lambda>c. c \<noteq> CHR ''=''"
  have s: "strip ?raw = m" using a b m by (rule strip_sandwich)
  have a_ne: "\<And>x. x \<in> set a \<Longrightarrow> x \<noteq> CHR ''=''" using a not_isspace_eq by blast
  have b_ne: "CHR ''='' \<notin> set b" using b not_isspace_eq by blast
  have a_ne': "CHR ''='' \<notin> set a" using a not_isspace_eq by blast
  have dw: "dropWhile isspace ?raw = dropWhile isspace (m @ b)"
    using a by (intro dropWhile_append2) auto
  show ?thesis
  proof (cases m)
    case Nil
    have "dropWhile isspace ?raw = []"
      using a b Nil by (simp add: dropWhile_eq_Nil_conv)
    then have nk: "\<not> spec_kept ?raw" unfolding spec_kept_def by (simp only: list.case simp_thms)
    have "parse_line ?raw data = Inr data"
      unfolding parse_line_def s using Nil by simp
    with nk show ?thesis by (simp only: if_False)
  next
    case (Cons c cs)
    with m have c: "\<not> isspace c" by simp
    have "dropWhile isspace (m @ b) = m @ b" using Cons c by simp
    with dw have dw': "dropWhile isspace ?raw = c # (cs @ b)" using Cons by simp
    have mem: "CHR ''='' \<in> set ?raw \<longleftrightarrow> CHR ''='' \<in> set m"
      using a_ne' b_ne by auto
    have kept: "spec_kept ?raw \<longleftrightarrow> c \<noteq> CHR ''#'' \<and> CHR ''='' \<in> set m"
      unfolding spec_kept_def dw' using mem by (simp only: list.case)
    have sw: "startswith m ''#'' \<longleftrightarrow> c = CHR ''#''"
      using Cons by (simp add: startswith_def)
    have mne: "m \<noteq> []" using Cons by simp
    show ?thesis
    proof (cases "spec_kept ?raw")
      case False
      then have "c = CHR ''#'' \<or> CHR ''='' \<notin> set m" using kept by blast
      then have "parse_line ?raw data = Inr data"
        unfolding parse_line_def s using sw mne by (auto simp: Let_def)
      with False show ?thesis by (simp only: if_False)
    next
      case True
      with kept have eq: "CHR ''='' \<in> set m" and nc: "c \<noteq> CHR ''#''" by blast+
      have "takeWhile ?ne ?raw = a @ takeWhile ?ne (m @ b)"
        using a_ne by (intro takeWhile_append2) auto
      also have "takeWhile ?ne (m @ b) = takeWhile ?ne m"
        using eq by (intro takeWhile_append1 [of "CHR ''=''"]) auto
      finally have tk: "takeWhile ?ne ?raw = a @ takeWhile ?ne m" .
      have key: "spec_key ?raw = strip (takeWhile ?ne m)"
        unfolding spec_key_def tk strip_def using a by (rule strip_with_prepend)
      have dne: "dropWhile ?ne m \<noteq> []" using eq by (simp add: dropWhile_eq_Nil_conv)
      have "dropWhile ?ne ?raw = dropWhile ?ne (m @ b)"
        using a_ne by (intro dropWhile_append2) auto
      also have "\<dots> = dropWhile ?ne m @ b"
        using eq by (intro dropWhile_append1 [of "CHR ''=''"]) auto
      finally have "tl (dropWhile ?ne ?raw) = tl (dropWhile ?ne m) @ b"
        using dne by simp
      then have val: "spec_value ?raw = clean_value (tl (dropWhile ?ne m))"
        unfolding spec_value_def using b by (simp only: clean_value_append)
      have "parse_line ?raw data =
          Inr (data(strip (takeWhile ?ne m) \<mapsto> clean_value (tl (dropWhile ?ne m))))"
        unfolding parse_line_def s using eq nc sw mne
        by (simp add: Let_def split_once_def)
      with True key val show ?thesis by (simp only: if_True)
    qed
  qed
qed

lemma parse_line_spec:
  "parse_line raw data =
     Inr (if spec_kept raw then data(spec_key raw \<mapsto> spec_value raw) else data)"
proof -
  obtain a b where ab: "raw = a @ strip raw @ b" "\<forall>c\<in>set a. isspace c" "\<forall>c\<in>set b. isspace c"
    using strip_with_decomp [of raw isspace] unfolding strip_def by blast
  define m where "m = strip raw"
  have m: "m = [] \<or> (\<not> isspace (hd m) \<and> \<not> isspace (last m))"
    unfolding m_def strip_def using strip_with_ends [of isspace raw] by blast
  have raw: "raw = a @ m @ b" unfolding m_def by (rule ab(1))
  show ?thesis unfolding raw using ab(2,3) m by (rule parse_line_sandwich)
qed

lemma spec_lookup_Nil: "spec_lookup [] k = None"
  by (simp add: spec_lookup_def)

lemma spec_lookup_Cons:
  "spec_lookup (raw # rest) k =
     (case spec_lookup rest k of
        Some v \<Rightarrow> Some v
      | None \<Rightarrow> if spec_kept raw \<and> spec_key raw = k then Some (spec_value raw) else None)"
proof (cases "filter (\<lambda>raw. spec_kept raw \<and> spec_key raw = k) rest")
  case Nil
  then show ?thesis by (simp add: spec_lookup_def)
next
  case (Cons e es)
  then show ?thesis by (simp add: spec_lookup_def)
qed

lemma parse_lines_spec:
  "\<exists>tbl. parse_lines ls data = Inr tbl \<and>
     (\<forall>k. tbl k = (case spec_lookup ls k of None \<Rightarrow> data k | Some v \<Rightarrow> Some v))"
proof (induction ls arbitrary: data)
  case Nil
  show ?case by (simp add: spec_lookup_Nil)
next
  case (Cons raw rest)
  define d where "d = (if spec_kept raw then data(spec_key raw \<mapsto> spec_value raw) else data)"
  obtain tbl where t: "parse_lines rest d = Inr tbl"
      "\<And>k. tbl k = (case spec_lookup rest k of None \<Rightarrow> d k | Some v \<Rightarrow> Some v)"
    using Cons.IH [of d] by blast
  have pl: "parse_line raw data = Inr d" unfolding d_def by (rule parse_line_spec)
  have "parse_lines (raw # rest) data = Inr tbl"
    using t(1) pl by simp
  moreover have "tbl k = (case spec_lookup (raw # rest) k of None \<Rightarrow> data k | Some v \<Rightarrow> Some v)" for k
  proof (cases "spec_lookup rest k")
    case (Some v)
    then show ?thesis using t(2) [of k] by (simp add: spec_lookup_Cons)
  next
    case None
    then have "tbl k = d k" using t(2) [of k] by simp
    then show ?thesis using None by (simp add: spec_lookup_Cons d_def)
  qed
  ultimately show ?case by blast
qed

text \<open>
  C1. For every input text the parser returns a table and raises nothing. A line is
  dropped when it is blank, when its first character that is not white space is \<open>#\<close>,
  or when it holds no \<open>=\<close>; every other line gives the trimmed text before its first
  \<open>=\<close> as key and the text after it (trimmed, quotes removed as line 17 does) as value.
  Looking a key up in the table gives the value of the last kept line with that key,
  and nothing when no kept line has it.
\<close>

theorem parse_env_file_last_line_wins:
  "\<exists>tbl. parse_env_file (Some text) = Inr tbl \<and>
     (\<forall>k. tbl k = spec_lookup (splitlines text) k)"
proof -
  obtain tbl where t: "parse_lines (splitlines text) Map.empty = Inr tbl"
      "\<And>k. tbl k = (case spec_lookup (splitlines text) k of
                       None \<Rightarrow> Map.empty k | Some v \<Rightarrow> Some v)"
    using parse_lines_spec [of "splitlines text" Map.empty] by blast
  have "tbl k = spec_lookup (splitlines text) k" for k
    using t(2) [of k] by (cases "spec_lookup (splitlines text) k") simp_all
  with t(1) show ?thesis by (simp add: parse_env_file_def)
qed

theorem parse_env_file_last_line_wins_witness:
  "\<exists>tbl. parse_env_file (Some (''# c=0'' @ [CHR 0x0A] @ ''A = 1'' @ [CHR 0x0A] @ ''noeq''
              @ [CHR 0x0A, CHR 0x0A] @ '' A=2 '')) = Inr tbl
     \<and> tbl ''A'' = Some ''2'' \<and> tbl ''noeq'' = None \<and> tbl ''# c'' = None"
proof -
  let ?text = "''# c=0'' @ [CHR 0x0A] @ ''A = 1'' @ [CHR 0x0A] @ ''noeq''
              @ [CHR 0x0A, CHR 0x0A] @ '' A=2 ''"
  have l: "splitlines ?text = [''# c=0'', ''A = 1'', ''noeq'', [], '' A=2 '']"
    by code_simp
  have a: "spec_lookup [''# c=0'', ''A = 1'', ''noeq'', [], '' A=2 ''] ''A'' = Some ''2''"
    by code_simp
  have b: "spec_lookup [''# c=0'', ''A = 1'', ''noeq'', [], '' A=2 ''] ''noeq'' = None"
    by code_simp
  have c: "spec_lookup [''# c=0'', ''A = 1'', ''noeq'', [], '' A=2 ''] ''# c'' = None"
    by code_simp
  show ?thesis
    using parse_env_file_last_line_wins [of ?text] unfolding l using a b c by auto
qed

subsection \<open>Quote stripping\<close>

lemma strip_with_sandwich:
  assumes a: "\<forall>c\<in>set a. p c" and b: "\<forall>c\<in>set b. p c"
    and m: "m = [] \<or> (\<not> p (hd m) \<and> \<not> p (last m))"
  shows "strip_with p (a @ m @ b) = m"
proof -
  have "strip_with p (a @ m @ b) = strip_with p (m @ b)"
    using a by (rule strip_with_prepend)
  also have "\<dots> = strip_with p m" using b by (rule strip_with_append)
  also have "\<dots> = m" using m by (rule strip_with_id)
  finally show ?thesis .
qed

lemma parse_line_kept:
  assumes "spec_kept raw" "spec_key raw = k" "spec_value raw = v"
  shows "parse_line raw data = Inr (data(k \<mapsto> v))"
  using assms by (simp add: parse_line_spec)

text \<open>
  C2, as stated, fails: the value \<open>"'a'"\<close> (single quotes inside double quotes) loses
  both layers, and the value \<open>"a\<close>, which no matching pair wraps, loses its quote.
\<close>

theorem clean_value_matching_pair_counterexample:
  "parse_line (''K='' @ [CHR 0x22, CHR 0x27] @ ''a'' @ [CHR 0x27, CHR 0x22]) Map.empty
     = Inr (Map.empty(''K'' \<mapsto> ''a''))
   \<and> parse_line (''K='' @ [CHR 0x22] @ ''a'') Map.empty = Inr (Map.empty(''K'' \<mapsto> ''a''))"
proof
  show "parse_line (''K='' @ [CHR 0x22, CHR 0x27] @ ''a'' @ [CHR 0x27, CHR 0x22]) Map.empty
     = Inr (Map.empty(''K'' \<mapsto> ''a''))"
    by (rule parse_line_kept; code_simp)
  show "parse_line (''K='' @ [CHR 0x22] @ ''a'') Map.empty = Inr (Map.empty(''K'' \<mapsto> ''a''))"
    by (rule parse_line_kept; code_simp)
qed

text \<open>
  C2, amended. After the white space is trimmed, every leading and trailing double
  quote is removed, then every leading and trailing single quote of what is left,
  whether or not the quotes pair up: a trimmed value of the shape
  \<open>"\<dots>" '\<dots>' u '\<dots>' "\<dots>"\<close>, where the runs may be empty and of different lengths and
  \<open>u\<close> neither starts nor ends with a single quote, is stored as \<open>u\<close>. So a value with no
  quote at either end is unchanged, one matching pair around such text is removed, and
  single quotes around double quotes keep the inner double quotes.
\<close>

theorem clean_value_strips_quote_runs:
  assumes "strip t = a @ w @ b"
    and "set a \<subseteq> {CHR 0x22}" and "set b \<subseteq> {CHR 0x22}"
    and "w = [] \<or> (hd w \<noteq> CHR 0x22 \<and> last w \<noteq> CHR 0x22)"
    and "w = a' @ u @ b'"
    and "set a' \<subseteq> {CHR 0x27}" and "set b' \<subseteq> {CHR 0x27}"
    and "u = [] \<or> (hd u \<noteq> CHR 0x27 \<and> last u \<noteq> CHR 0x27)"
  shows "clean_value t = u"
proof -
  have "strip_chars [CHR 0x22] (a @ w @ b) = w"
    unfolding strip_chars_def using assms(2,3,4) by (intro strip_with_sandwich) auto
  moreover have "strip_chars [CHR 0x27] (a' @ u @ b') = u"
    unfolding strip_chars_def using assms(6,7,8) by (intro strip_with_sandwich) auto
  ultimately show ?thesis
    unfolding clean_value_def assms(1) using assms(5) by simp
qed

theorem clean_value_strips_quote_runs_witness:
  "clean_value ('' '' @ [CHR 0x22] @ ''a#b'' @ [CHR 0x22] @ '' '') = ''a#b''
   \<and> clean_value ([CHR 0x27, CHR 0x22] @ ''a'' @ [CHR 0x22, CHR 0x27]) = [CHR 0x22] @ ''a'' @ [CHR 0x22]
   \<and> clean_value ''plain'' = ''plain''"
proof -
  have s1: "strip ('' '' @ [CHR 0x22] @ ''a#b'' @ [CHR 0x22] @ '' '')
      = [CHR 0x22] @ ''a#b'' @ [CHR 0x22]" by code_simp
  have s2: "strip ([CHR 0x27, CHR 0x22] @ ''a'' @ [CHR 0x22, CHR 0x27])
      = [] @ ([CHR 0x27, CHR 0x22] @ ''a'' @ [CHR 0x22, CHR 0x27]) @ []" by code_simp
  have s3: "strip ''plain'' = [] @ ''plain'' @ []" by code_simp
  have "clean_value ('' '' @ [CHR 0x22] @ ''a#b'' @ [CHR 0x22] @ '' '') = ''a#b''"
    by (rule clean_value_strips_quote_runs [OF s1, where a' = "[]" and b' = "[]"]) simp_all
  moreover have "clean_value ([CHR 0x27, CHR 0x22] @ ''a'' @ [CHR 0x22, CHR 0x27])
      = [CHR 0x22] @ ''a'' @ [CHR 0x22]"
    by (rule clean_value_strips_quote_runs
          [OF s2, where a' = "[CHR 0x27]" and b' = "[CHR 0x27]"]) simp_all
  moreover have "clean_value ''plain'' = ''plain''"
    by (rule clean_value_strips_quote_runs [OF s3, where a' = "[]" and b' = "[]"]) simp_all
  ultimately show ?thesis by blast
qed

subsection \<open>The loader\<close>

lemma parse_env_file_table:
  "parse_env_file (Some text) = Inr (spec_lookup (splitlines text))"
proof -
  obtain tbl where t: "parse_lines (splitlines text) Map.empty = Inr tbl"
      "\<And>k. tbl k = (case spec_lookup (splitlines text) k of
                       None \<Rightarrow> Map.empty k | Some v \<Rightarrow> Some v)"
    using parse_lines_spec [of "splitlines text" Map.empty] by blast
  have "tbl k = spec_lookup (splitlines text) k" for k
    using t(2) [of k] by (cases "spec_lookup (splitlines text) k") simp_all
  then have "tbl = spec_lookup (splitlines text)" by (rule ext)
  with t(1) show ?thesis by (simp add: parse_env_file_def)
qed

lemma parse_env_file_total: "\<exists>vars. parse_env_file path = Inr vars"
proof (cases path)
  case None
  then show ?thesis by (simp add: parse_env_file_def)
next
  case (Some t)
  then show ?thesis by (simp add: parse_env_file_table)
qed

lemma get_get: "get vars k (get vars k d) = get vars k d"
  by (simp add: get_def split: option.splits)

lemma get_legacy:
  "get vars k (if get vars k [] \<noteq> [] then get vars k [] else d)
     = (case vars k of Some x \<Rightarrow> x | None \<Rightarrow> d)"
  by (simp add: get_def split: option.splits)

lemma wifi_slots_eq: "wifi_slots vars is env = env @ concat (map (slot_pair vars) is)"
  by (induction "is" arbitrary: env) (simp_all add: define_str_def slot_pair_def)

lemma legacy_and_fixed_eq: "legacy_and_fixed vars env = env @ tail_defines vars"
  unfolding legacy_and_fixed_def Let_def define_str_def define_int_def get_get get_legacy
    tail_defines_def
  by simp

lemma load_env_eq:
  assumes "parse_env_file path = Inr vars"
    and "py_int (get vars ''WIFI_SLOTS_MAX'' ''10'') = Inr n"
  shows "load_env path env = Inr (env @ concat (map (slot_pair vars) [1..n]) @ tail_defines vars)"
  using assms
  by (simp add: load_env_def py_range_def wifi_slots_eq legacy_and_fixed_eq)

lemma load_env_raises:
  assumes "parse_env_file path = Inr vars"
    and "py_int (get vars ''WIFI_SLOTS_MAX'' ''10'') = Inl e"
  shows "load_env path env = Inl e"
  using assms by (simp add: load_env_def)

lemma py_int_default: "py_int ''10'' = Inr 10"
  by code_simp

subsection \<open>Exceptions\<close>

text \<open>
  C3, as stated, fails: with the line \<open>WIFI_SLOTS_MAX=abc\<close> the call \<open>int("abc")\<close>
  raises ValueError and the script stops before it registers a define.
\<close>

theorem load_env_non_numeric_slots_counterexample:
  "load_env (Some ''WIFI_SLOTS_MAX=abc'') [] = Inl ValueError"
  by code_simp

text \<open>
  C3, amended. Reading the file never raises. The script raises exactly when \<open>int()\<close>
  rejects the WIFI\_SLOTS\_MAX value (by default the text 10), and then it raises
  ValueError; otherwise it completes, and the values of the integer defines MQTT\_PORT
  and BACKEND\_PORT are registered as the table holds them, with no numeric parsing.
\<close>

theorem load_env_raises_only_on_slots:
  "\<exists>vars. parse_env_file path = Inr vars \<and>
     (case py_int (get vars ''WIFI_SLOTS_MAX'' ''10'') of
        Inl e \<Rightarrow> load_env path env = Inl ValueError
      | Inr n \<Rightarrow>
          (\<exists>defs. load_env path env = Inr defs
             \<and> (''MQTT_PORT'', get vars ''MQTT_PORT'' ''1883'') \<in> set defs
             \<and> (''BACKEND_PORT'', get vars ''BACKEND_PORT'' ''5000'') \<in> set defs))"
proof -
  obtain vars where v: "parse_env_file path = Inr vars"
    using parse_env_file_total by blast
  show ?thesis
  proof (cases "py_int (get vars ''WIFI_SLOTS_MAX'' ''10'')")
    case (Inl e)
    then have "load_env path env = Inl e" using v by (intro load_env_raises)
    moreover have "e = ValueError" by (cases e) simp
    ultimately show ?thesis using v Inl by auto
  next
    case (Inr n)
    have "load_env path env =
        Inr (env @ concat (map (slot_pair vars) [1..n]) @ tail_defines vars)"
      using v Inr by (rule load_env_eq)
    moreover have "(''MQTT_PORT'', get vars ''MQTT_PORT'' ''1883'') \<in> set (tail_defines vars)"
      by (simp add: tail_defines_def)
    moreover have "(''BACKEND_PORT'', get vars ''BACKEND_PORT'' ''5000'') \<in> set (tail_defines vars)"
      by (simp add: tail_defines_def)
    ultimately show ?thesis using v Inr by auto
  qed
qed

theorem load_env_raises_only_on_slots_witness:
  "load_env (Some ''WIFI_SLOTS_MAX=1x'') [] = Inl ValueError
   \<and> (\<exists>defs. load_env (Some ''MQTT_PORT=12ab'') [] = Inr defs
         \<and> (''MQTT_PORT'', ''12ab'') \<in> set defs)"
proof
  have l: "splitlines ''WIFI_SLOTS_MAX=1x'' = [''WIFI_SLOTS_MAX=1x'']" by code_simp
  have k: "spec_lookup [''WIFI_SLOTS_MAX=1x''] ''WIFI_SLOTS_MAX'' = Some ''1x''" by code_simp
  have p: "py_int ''1x'' = Inl ValueError" by code_simp
  show "load_env (Some ''WIFI_SLOTS_MAX=1x'') [] = Inl ValueError"
    using load_env_raises_only_on_slots [of "Some ''WIFI_SLOTS_MAX=1x''" "[]"]
    by (simp add: parse_env_file_table l get_def k p)
next
  have l: "splitlines ''MQTT_PORT=12ab'' = [''MQTT_PORT=12ab'']" by code_simp
  have k: "spec_lookup [''MQTT_PORT=12ab''] ''WIFI_SLOTS_MAX'' = None" by code_simp
  have m: "spec_lookup [''MQTT_PORT=12ab''] ''MQTT_PORT'' = Some ''12ab''" by code_simp
  show "\<exists>defs. load_env (Some ''MQTT_PORT=12ab'') [] = Inr defs
         \<and> (''MQTT_PORT'', ''12ab'') \<in> set defs"
    using load_env_raises_only_on_slots [of "Some ''MQTT_PORT=12ab''" "[]"]
    by (auto simp add: parse_env_file_table l get_def k m py_int_default)
qed

subsection \<open>Defaults and slots\<close>

lemma parse_env_file_None: "parse_env_file None = Inr Map.empty"
  by (simp add: parse_env_file_def)

lemma get_empty: "get Map.empty k d = d"
  by (simp add: get_def)

lemma slot_pair_empty:
  "slot_pair Map.empty = (\<lambda>i. [(''WIFI_SSID'' @ str_int i, quoted []),
                                  (''WIFI_PASS'' @ str_int i, quoted [])])"
  by (rule ext) (simp add: slot_pair_def get_empty)

lemma slot_pair_lambda:
  "slot_pair vars =
     (\<lambda>i. [(''WIFI_SSID'' @ str_int i, quoted (get vars (''WIFI_SSID'' @ str_int i) [])),
            (''WIFI_PASS'' @ str_int i, quoted (get vars (''WIFI_PASS'' @ str_int i) []))])"
  by (rule ext) (simp add: slot_pair_def)

lemma length_slots: "length (concat (map (slot_pair vars) xs)) = 2 * length xs"
  by (induction xs) (simp_all add: slot_pair_def)

lemma map_fst_tail_defines:
  "map fst (tail_defines vars) =
     [''WIFI_SSID'', ''WIFI_PASS'', ''MQTT_HOST_ONLINE'', ''MQTT_HOST_OFFLINE'',
      ''MQTT_PORT'', ''BACKEND_BASE'', ''BACKEND_HOST'', ''BACKEND_PORT'', ''DEVICE_ID'']"
  by (simp add: tail_defines_def)

text \<open>
  C6. When the path does not exist the parser returns the empty table and raises
  nothing, and the script then registers ten empty slot pairs, the empty legacy pair
  and every fixed key with its default: MQTT\_HOST\_ONLINE empty, MQTT\_HOST\_OFFLINE
  192.168.31.108, MQTT\_PORT the bare 1883, BACKEND\_BASE empty, BACKEND\_HOST
  192.168.31.108, BACKEND\_PORT the bare 5000, DEVICE\_ID esp32\_001.
\<close>

theorem load_env_missing_file:
  "parse_env_file None = Inr Map.empty \<and>
   load_env None env =
     Inr (env
          @ concat (map (\<lambda>i. [(''WIFI_SSID'' @ str_int i, quoted []),
                               (''WIFI_PASS'' @ str_int i, quoted [])]) [1..10])
          @ [(''WIFI_SSID'', quoted []),
             (''WIFI_PASS'', quoted []),
             (''MQTT_HOST_ONLINE'', quoted []),
             (''MQTT_HOST_OFFLINE'', quoted ''192.168.31.108''),
             (''MQTT_PORT'', ''1883''),
             (''BACKEND_BASE'', quoted []),
             (''BACKEND_HOST'', quoted ''192.168.31.108''),
             (''BACKEND_PORT'', ''5000''),
             (''DEVICE_ID'', quoted ''esp32_001'')])"
proof -
  have n: "py_int (get Map.empty ''WIFI_SLOTS_MAX'' ''10'') = Inr 10"
    by (simp add: get_empty py_int_default)
  have "load_env None env =
      Inr (env @ concat (map (slot_pair Map.empty) [1..10]) @ tail_defines Map.empty)"
    using parse_env_file_None n by (rule load_env_eq)
  then show ?thesis
    unfolding slot_pair_empty by (simp add: parse_env_file_None tail_defines_def get_empty)
qed

theorem load_env_missing_file_witness:
  "load_env None [(''ARDUINO'', ''10805'')] =
     Inr ([(''ARDUINO'', ''10805'')]
          @ concat (map (\<lambda>i. [(''WIFI_SSID'' @ str_int i, quoted []),
                               (''WIFI_PASS'' @ str_int i, quoted [])]) [1..10])
          @ [(''WIFI_SSID'', quoted []),
             (''WIFI_PASS'', quoted []),
             (''MQTT_HOST_ONLINE'', quoted []),
             (''MQTT_HOST_OFFLINE'', quoted ''192.168.31.108''),
             (''MQTT_PORT'', ''1883''),
             (''BACKEND_BASE'', quoted []),
             (''BACKEND_HOST'', quoted ''192.168.31.108''),
             (''BACKEND_PORT'', ''5000''),
             (''DEVICE_ID'', quoted ''esp32_001'')])"
  using load_env_missing_file [of "[(''ARDUINO'', ''10805'')]"] by blast

text \<open>
  C10. When WIFI\_SLOTS\_MAX parses to zero or to a negative integer, the slot loop
  registers nothing: the script appends exactly the legacy pair and the seven fixed
  keys. The legacy WIFI\_SSID still takes the table's WIFI\_SSID1 value when the table
  has no WIFI\_SSID, although no slot define carries that value.
\<close>

theorem load_env_no_slots:
  assumes "parse_env_file path = Inr vars"
    and "py_int (get vars ''WIFI_SLOTS_MAX'' ''10'') = Inr n"
    and "n \<le> 0"
  shows "load_env path env =
     Inr (env @
       [(''WIFI_SSID'', quoted (case vars ''WIFI_SSID'' of
                                  Some x \<Rightarrow> x | None \<Rightarrow> get vars ''WIFI_SSID1'' [])),
        (''WIFI_PASS'', quoted (case vars ''WIFI_PASS'' of
                                  Some x \<Rightarrow> x | None \<Rightarrow> get vars ''WIFI_PASS1'' [])),
        (''MQTT_HOST_ONLINE'', quoted (get vars ''MQTT_HOST_ONLINE'' [])),
        (''MQTT_HOST_OFFLINE'', quoted (get vars ''MQTT_HOST_OFFLINE'' ''192.168.31.108'')),
        (''MQTT_PORT'', get vars ''MQTT_PORT'' ''1883''),
        (''BACKEND_BASE'', quoted (get vars ''BACKEND_BASE'' [])),
        (''BACKEND_HOST'', quoted (get vars ''BACKEND_HOST'' ''192.168.31.108'')),
        (''BACKEND_PORT'', get vars ''BACKEND_PORT'' ''5000''),
        (''DEVICE_ID'', quoted (get vars ''DEVICE_ID'' ''esp32_001''))])"
proof -
  have "[1..n] = []" using assms(3) by simp
  moreover have "load_env path env =
      Inr (env @ concat (map (slot_pair vars) [1..n]) @ tail_defines vars)"
    using assms(1,2) by (rule load_env_eq)
  ultimately show ?thesis by (simp add: tail_defines_def)
qed

theorem load_env_no_slots_witness:
  "(- 2 :: int) \<le> 0 \<and>
   load_env (Some (''WIFI_SLOTS_MAX=-2'' @ [CHR 0x0A] @ ''WIFI_SSID1=MyNet'')) [] =
     Inr [(''WIFI_SSID'', quoted ''MyNet''),
          (''WIFI_PASS'', quoted []),
          (''MQTT_HOST_ONLINE'', quoted []),
          (''MQTT_HOST_OFFLINE'', quoted ''192.168.31.108''),
          (''MQTT_PORT'', ''1883''),
          (''BACKEND_BASE'', quoted []),
          (''BACKEND_HOST'', quoted ''192.168.31.108''),
          (''BACKEND_PORT'', ''5000''),
          (''DEVICE_ID'', quoted ''esp32_001'')]"
proof -
  let ?T = "''WIFI_SLOTS_MAX=-2'' @ [CHR 0x0A] @ ''WIFI_SSID1=MyNet''"
  let ?L = "[''WIFI_SLOTS_MAX=-2'', ''WIFI_SSID1=MyNet'']"
  have l: "splitlines ?T = ?L" by code_simp
  have p: "parse_env_file (Some ?T) = Inr (spec_lookup ?L)"
    by (simp only: parse_env_file_table l)
  have n: "py_int (get (spec_lookup ?L) ''WIFI_SLOTS_MAX'' ''10'') = Inr (- 2)" by code_simp
  have k: "spec_lookup ?L ''WIFI_SSID'' = None" "spec_lookup ?L ''WIFI_PASS'' = None"
    "spec_lookup ?L ''WIFI_SSID1'' = Some ''MyNet''" "spec_lookup ?L ''WIFI_PASS1'' = None"
    "spec_lookup ?L ''MQTT_HOST_ONLINE'' = None" "spec_lookup ?L ''MQTT_HOST_OFFLINE'' = None"
    "spec_lookup ?L ''MQTT_PORT'' = None" "spec_lookup ?L ''BACKEND_BASE'' = None"
    "spec_lookup ?L ''BACKEND_HOST'' = None" "spec_lookup ?L ''BACKEND_PORT'' = None"
    "spec_lookup ?L ''DEVICE_ID'' = None"
    by code_simp+
  have z: "(- 2 :: int) \<le> 0" by simp
  show ?thesis
    using load_env_no_slots [OF p n z, of "[]"] by (simp add: get_def k)
qed

text \<open>
  C4. The script reads WIFI\_SLOTS\_MAX from the table, with the text 10 when the key
  is absent, and for every \<open>i\<close> from 1 to that number inclusive it registers
  WIFI\_SSID\<open>i\<close> and then WIFI\_PASS\<open>i\<close> as string defines whose default is the empty
  string. These are twice that many entries, and the nine entries that follow are the
  legacy pair and the fixed keys, none of them a slot; so WIFI\_SLOTS\_MAX=3 with no
  other WiFi key gives exactly the three empty slot pairs.
\<close>

theorem load_env_slots:
  assumes "parse_env_file path = Inr vars"
    and "py_int (get vars ''WIFI_SLOTS_MAX'' ''10'') = Inr n"
  shows "\<exists>slots rest. load_env path env = Inr (env @ slots @ rest)
     \<and> slots = concat (map (\<lambda>i.
          [(''WIFI_SSID'' @ str_int i, quoted (get vars (''WIFI_SSID'' @ str_int i) [])),
           (''WIFI_PASS'' @ str_int i, quoted (get vars (''WIFI_PASS'' @ str_int i) []))])
          [1..n])
     \<and> length slots = 2 * nat n
     \<and> map fst rest =
         [''WIFI_SSID'', ''WIFI_PASS'', ''MQTT_HOST_ONLINE'', ''MQTT_HOST_OFFLINE'',
          ''MQTT_PORT'', ''BACKEND_BASE'', ''BACKEND_HOST'', ''BACKEND_PORT'', ''DEVICE_ID'']
     \<and> (vars ''WIFI_SLOTS_MAX'' = None \<longrightarrow> n = 10)"
proof -
  let ?slots = "concat (map (slot_pair vars) [1..n])"
  have a: "load_env path env = Inr (env @ ?slots @ tail_defines vars)"
    using assms by (rule load_env_eq)
  have b: "length ?slots = 2 * nat n"
    by (simp add: length_slots)
  have c: "n = 10" if "vars ''WIFI_SLOTS_MAX'' = None"
  proof -
    from that have "get vars ''WIFI_SLOTS_MAX'' ''10'' = ''10''" by (simp add: get_def)
    with assms(2) show ?thesis by (simp add: py_int_default)
  qed
  show ?thesis
  proof (intro exI conjI impI)
    show "load_env path env = Inr (env @ ?slots @ tail_defines vars)" by (rule a)
    show "?slots = concat (map (\<lambda>i.
          [(''WIFI_SSID'' @ str_int i, quoted (get vars (''WIFI_SSID'' @ str_int i) [])),
           (''WIFI_PASS'' @ str_int i, quoted (get vars (''WIFI_PASS'' @ str_int i) []))])
          [1..n])"
      by (simp only: slot_pair_lambda)
    show "length ?slots = 2 * nat n" by (rule b)
    show "map fst (tail_defines vars) =
         [''WIFI_SSID'', ''WIFI_PASS'', ''MQTT_HOST_ONLINE'', ''MQTT_HOST_OFFLINE'',
          ''MQTT_PORT'', ''BACKEND_BASE'', ''BACKEND_HOST'', ''BACKEND_PORT'', ''DEVICE_ID'']"
      by (rule map_fst_tail_defines)
    show "n = 10" if "vars ''WIFI_SLOTS_MAX'' = None" using that by (rule c)
  qed
qed

theorem load_env_slots_witness:
  "\<exists>rest. load_env (Some ''WIFI_SLOTS_MAX=3'') [] =
       Inr ([(''WIFI_SSID1'', quoted []), (''WIFI_PASS1'', quoted []),
             (''WIFI_SSID2'', quoted []), (''WIFI_PASS2'', quoted []),
             (''WIFI_SSID3'', quoted []), (''WIFI_PASS3'', quoted [])] @ rest)
     \<and> map fst rest =
         [''WIFI_SSID'', ''WIFI_PASS'', ''MQTT_HOST_ONLINE'', ''MQTT_HOST_OFFLINE'',
          ''MQTT_PORT'', ''BACKEND_BASE'', ''BACKEND_HOST'', ''BACKEND_PORT'', ''DEVICE_ID'']"
proof -
  let ?L = "[''WIFI_SLOTS_MAX=3'']"
  have l: "splitlines ''WIFI_SLOTS_MAX=3'' = ?L" by code_simp
  have p: "parse_env_file (Some ''WIFI_SLOTS_MAX=3'') = Inr (spec_lookup ?L)"
    by (simp only: parse_env_file_table l)
  have n: "py_int (get (spec_lookup ?L) ''WIFI_SLOTS_MAX'' ''10'') = Inr 3" by code_simp
  have s: "concat (map (\<lambda>i.
          [(''WIFI_SSID'' @ str_int i, quoted (get (spec_lookup ?L) (''WIFI_SSID'' @ str_int i) [])),
           (''WIFI_PASS'' @ str_int i, quoted (get (spec_lookup ?L) (''WIFI_PASS'' @ str_int i) []))])
          [1..3])
      = [(''WIFI_SSID1'', quoted []), (''WIFI_PASS1'', quoted []),
         (''WIFI_SSID2'', quoted []), (''WIFI_PASS2'', quoted []),
         (''WIFI_SSID3'', quoted []), (''WIFI_PASS3'', quoted [])]"
    by code_simp
  show ?thesis
    using load_env_slots [OF p n, of "[]"] unfolding s by auto
qed

subsection \<open>Every requested key is defined\<close>

lemma load_env_Inr_cases:
  assumes "load_env path env = Inr defs"
  shows "\<exists>vars n. parse_env_file path = Inr vars
     \<and> py_int (get vars ''WIFI_SLOTS_MAX'' ''10'') = Inr n
     \<and> defs = env @ concat (map (slot_pair vars) [1..n]) @ tail_defines vars"
proof -
  obtain vars where v: "parse_env_file path = Inr vars"
    using parse_env_file_total by blast
  show ?thesis
  proof (cases "py_int (get vars ''WIFI_SLOTS_MAX'' ''10'')")
    case (Inl e)
    with v have "load_env path env = Inl e" by (intro load_env_raises)
    with assms show ?thesis by simp
  next
    case (Inr n)
    with v have "load_env path env =
        Inr (env @ concat (map (slot_pair vars) [1..n]) @ tail_defines vars)"
      by (intro load_env_eq)
    with assms v Inr show ?thesis by auto
  qed
qed

lemma slot_pair_from_table:
  assumes "(k, v) \<in> set (slot_pair vars i)" and "vars k = Some x"
  shows "v = quoted x"
  using assms by (auto simp: slot_pair_def get_def)

lemma tail_defines_from_table:
  assumes "(k, v) \<in> set (tail_defines vars)" and "vars k = Some x"
  shows "v = x \<or> v = quoted x"
  using assms by (auto simp: tail_defines_def get_def)

lemma tail_defines_keys:
  assumes "k \<in> set [''WIFI_SSID'', ''WIFI_PASS'', ''MQTT_HOST_ONLINE'', ''MQTT_HOST_OFFLINE'',
        ''MQTT_PORT'', ''BACKEND_BASE'', ''BACKEND_HOST'', ''BACKEND_PORT'', ''DEVICE_ID'']"
  shows "\<exists>v. (k, v) \<in> set (tail_defines vars)"
proof -
  have "k \<in> set (map fst (tail_defines vars))"
    using assms by (simp only: map_fst_tail_defines)
  then show ?thesis by auto
qed

lemma in_concat_pairs:
  assumes "k \<in> set (concat (map (\<lambda>i. [f i, g i]) xs) @ ys)"
  shows "(\<exists>i\<in>set xs. k = f i \<or> k = g i) \<or> k \<in> set ys"
  using assms by auto

lemma requested_keys_cases:
  assumes "k \<in> set (requested_keys n)"
  shows "(\<exists>i\<in>set [1..n]. k = ''WIFI_SSID'' @ str_int i \<or> k = ''WIFI_PASS'' @ str_int i)
     \<or> k \<in> set [''WIFI_SSID'', ''WIFI_PASS'', ''MQTT_HOST_ONLINE'', ''MQTT_HOST_OFFLINE'',
        ''MQTT_PORT'', ''BACKEND_BASE'', ''BACKEND_HOST'', ''BACKEND_PORT'', ''DEVICE_ID'']"
  using assms unfolding requested_keys_def by (rule in_concat_pairs)

text \<open>
  C9. Whenever the script completes, every key it asks for has an entry among the
  defines it appended: WIFI\_SSID\<open>i\<close> and WIFI\_PASS\<open>i\<close> for every \<open>i\<close> from 1 to
  WIFI\_SLOTS\_MAX, the legacy pair, and the seven fixed keys. When the table holds the
  key, the entry's value is the table's value, bare or in escaped quotes; otherwise it
  is the default the script passes.
\<close>

theorem load_env_defines_every_requested_key:
  assumes "load_env path env = Inr defs"
  shows "\<exists>vars n. parse_env_file path = Inr vars
     \<and> py_int (get vars ''WIFI_SLOTS_MAX'' ''10'') = Inr n
     \<and> (\<forall>k\<in>set (requested_keys n).
           \<exists>v. (k, v) \<in> set (drop (length env) defs)
             \<and> (\<forall>x. vars k = Some x \<longrightarrow> v = x \<or> v = quoted x))"
proof -
  obtain vars n where v: "parse_env_file path = Inr vars"
      and n: "py_int (get vars ''WIFI_SLOTS_MAX'' ''10'') = Inr n"
      and d: "defs = env @ concat (map (slot_pair vars) [1..n]) @ tail_defines vars"
    using load_env_Inr_cases [OF assms] by blast
  let ?slots = "concat (map (slot_pair vars) [1..n])"
  have dr: "set (drop (length env) defs) = set ?slots \<union> set (tail_defines vars)"
    unfolding d by simp
  have "\<exists>v. (k, v) \<in> set (drop (length env) defs)
          \<and> (\<forall>x. vars k = Some x \<longrightarrow> v = x \<or> v = quoted x)"
    if k: "k \<in> set (requested_keys n)" for k
  proof -
    from k consider
        (slot) i where "i \<in> set [1..n]"
          "k = ''WIFI_SSID'' @ str_int i \<or> k = ''WIFI_PASS'' @ str_int i"
      | (fixed) "k \<in> set [''WIFI_SSID'', ''WIFI_PASS'', ''MQTT_HOST_ONLINE'',
          ''MQTT_HOST_OFFLINE'', ''MQTT_PORT'', ''BACKEND_BASE'', ''BACKEND_HOST'',
          ''BACKEND_PORT'', ''DEVICE_ID'']"
      using requested_keys_cases by blast
    then show ?thesis
    proof cases
      case slot
      then obtain v where m: "(k, v) \<in> set (slot_pair vars i)"
        by (auto simp: slot_pair_def)
      with slot(1) have "(k, v) \<in> set ?slots" by auto
      moreover have "\<forall>x. vars k = Some x \<longrightarrow> v = x \<or> v = quoted x"
        using m slot_pair_from_table by blast
      ultimately show ?thesis using dr by blast
    next
      case fixed
      then obtain v where m: "(k, v) \<in> set (tail_defines vars)"
        using tail_defines_keys by blast
      moreover have "\<forall>x. vars k = Some x \<longrightarrow> v = x \<or> v = quoted x"
        using m tail_defines_from_table by blast
      ultimately show ?thesis using dr by blast
    qed
  qed
  with v n show ?thesis by blast
qed

theorem load_env_defines_every_requested_key_witness:
  "\<exists>defs. load_env None [] = Inr defs
     \<and> (\<exists>v. (''WIFI_PASS10'', v) \<in> set defs) \<and> (\<exists>v. (''DEVICE_ID'', v) \<in> set defs)"
proof -
  obtain defs where d: "load_env None [] = Inr defs"
    using load_env_eq [OF parse_env_file_None, of 10 "[]"]
    by (simp add: get_empty py_int_default)
  obtain vars n where v: "parse_env_file None = Inr vars"
      and n: "py_int (get vars ''WIFI_SLOTS_MAX'' ''10'') = Inr n"
      and r: "\<forall>k\<in>set (requested_keys n). \<exists>v. (k, v) \<in> set (drop (length ([]::define_set)) defs)
             \<and> (\<forall>x. vars k = Some x \<longrightarrow> v = x \<or> v = quoted x)"
    using load_env_defines_every_requested_key [OF d] by blast
  from v have "vars = Map.empty" by (simp add: parse_env_file_None)
  with n have n10: "n = 10" by (simp add: get_empty py_int_default)
  have "''WIFI_PASS10'' \<in> set (requested_keys 10)" "''DEVICE_ID'' \<in> set (requested_keys 10)"
    by code_simp+
  with r n10 have "\<exists>v. (''WIFI_PASS10'', v) \<in> set defs" "\<exists>v. (''DEVICE_ID'', v) \<in> set defs"
    by auto
  with d show ?thesis by blast
qed

subsection \<open>String and integer defines\<close>

lemma slot_pair_not_port: "(''MQTT_PORT'', v) \<notin> set (slot_pair vars i)"
  by (simp add: slot_pair_def)

lemma slots_not_port: "(''MQTT_PORT'', v) \<notin> set (concat (map (slot_pair vars) xs))"
  using slot_pair_not_port by auto

lemma tail_defines_port:
  "(''MQTT_PORT'', v) \<in> set (tail_defines vars) \<longleftrightarrow> v = get vars ''MQTT_PORT'' ''1883''"
  by (simp add: tail_defines_def)

text \<open>
  C7. \<open>define_str\<close> appends the key with the looked-up value between an escaped
  double quote on each side (backslash, double quote), and \<open>define_int\<close> appends the
  key with the looked-up value as it is. In every run that completes, the only entry
  the script appends for MQTT\_PORT carries the table's value, or 1883, bare; so the
  line \<open>MQTT_PORT=1883\<close> gives the token 1883 and not a quoted string.
\<close>

theorem define_str_quotes_define_int_bare:
  assumes "parse_env_file path = Inr vars" and "load_env path env = Inr defs"
  shows "define_str vars key d e = e @ [(key, [CHR 0x5C, CHR 0x22] @ get vars key d @ [CHR 0x5C, CHR 0x22])]
     \<and> define_int vars key d e = e @ [(key, get vars key d)]
     \<and> (''MQTT_PORT'', get vars ''MQTT_PORT'' ''1883'') \<in> set (drop (length env) defs)
     \<and> (\<forall>v. (''MQTT_PORT'', v) \<in> set (drop (length env) defs)
            \<longrightarrow> v = get vars ''MQTT_PORT'' ''1883'')"
proof -
  obtain vars' n where v: "parse_env_file path = Inr vars'"
      and d: "defs = env @ concat (map (slot_pair vars') [1..n]) @ tail_defines vars'"
    using load_env_Inr_cases [OF assms(2)] by blast
  from v assms(1) have "vars' = vars" by simp
  with d have dr: "set (drop (length env) defs)
      = set (concat (map (slot_pair vars) [1..n])) \<union> set (tail_defines vars)"
    by simp
  have "(''MQTT_PORT'', v) \<in> set (drop (length env) defs)
      \<longleftrightarrow> v = get vars ''MQTT_PORT'' ''1883''" for v
    unfolding dr Un_iff using slots_not_port [of v vars "[1..n]"] tail_defines_port [of v vars]
    by blast
  then show ?thesis
    by (simp add: define_str_def define_int_def quoted_def)
qed

theorem define_str_quotes_define_int_bare_witness:
  "\<exists>defs. load_env (Some ''MQTT_PORT=1883'') [] = Inr defs
     \<and> (''MQTT_PORT'', ''1883'') \<in> set defs
     \<and> (''MQTT_PORT'', [CHR 0x5C, CHR 0x22] @ ''1883'' @ [CHR 0x5C, CHR 0x22]) \<notin> set defs"
proof -
  let ?L = "[''MQTT_PORT=1883'']"
  have l: "splitlines ''MQTT_PORT=1883'' = ?L" by code_simp
  have p: "parse_env_file (Some ''MQTT_PORT=1883'') = Inr (spec_lookup ?L)"
    by (simp only: parse_env_file_table l)
  have n: "py_int (get (spec_lookup ?L) ''WIFI_SLOTS_MAX'' ''10'') = Inr 10" by code_simp
  define defs where
    "defs = [] @ concat (map (slot_pair (spec_lookup ?L)) [1..10]) @ tail_defines (spec_lookup ?L)"
  have d: "load_env (Some ''MQTT_PORT=1883'') [] = Inr defs"
    unfolding defs_def using p n by (rule load_env_eq)
  have g: "get (spec_lookup ?L) ''MQTT_PORT'' ''1883'' = ''1883''" by code_simp
  note t = define_str_quotes_define_int_bare [OF p d, of "[]" "[]" "[]"]
  have a: "(''MQTT_PORT'', ''1883'') \<in> set (drop (length ([] :: define_set)) defs)"
    using t [THEN conjunct2, THEN conjunct2, THEN conjunct1] by (simp only: g)
  have b: "\<forall>v. (''MQTT_PORT'', v) \<in> set (drop (length ([] :: define_set)) defs)
      \<longrightarrow> v = ''1883''"
    using t [THEN conjunct2, THEN conjunct2, THEN conjunct2] by (simp only: g)
  have a': "(''MQTT_PORT'', ''1883'') \<in> set defs" using a by simp
  have ne: "[CHR 0x5C, CHR 0x22] @ ''1883'' @ [CHR 0x5C, CHR 0x22] \<noteq> ''1883''" by simp
  have b': "(''MQTT_PORT'', [CHR 0x5C, CHR 0x22] @ ''1883'' @ [CHR 0x5C, CHR 0x22]) \<notin> set defs"
  proof
    assume "(''MQTT_PORT'', [CHR 0x5C, CHR 0x22] @ ''1883'' @ [CHR 0x5C, CHR 0x22]) \<in> set defs"
    then have "(''MQTT_PORT'', [CHR 0x5C, CHR 0x22] @ ''1883'' @ [CHR 0x5C, CHR 0x22])
        \<in> set (drop (length ([] :: define_set)) defs)" by simp
    with b have "[CHR 0x5C, CHR 0x22] @ ''1883'' @ [CHR 0x5C, CHR 0x22] = ''1883''" by blast
    with ne show False by (rule notE)
  qed
  from d a' b' show ?thesis by blast
qed

text \<open>
  C5 fails on the code when the table holds WIFI\_SSID with an empty value: the script
  computes the fallback to WIFI\_SSID1 and passes it to \<open>define_str\<close> as the default,
  but \<open>define_str\<close> looks WIFI\_SSID up again, finds the empty value and registers it.
  With the lines \<open>WIFI_SLOTS_MAX=1\<close>, \<open>WIFI_SSID=\<close> and \<open>WIFI_SSID1=MyNet\<close> the
  legacy WIFI\_SSID is the empty string, not MyNet.
\<close>

theorem load_env_legacy_empty_value:
  "load_env (Some (''WIFI_SLOTS_MAX=1'' @ [CHR 0x0A] @ ''WIFI_SSID='' @ [CHR 0x0A]
       @ ''WIFI_SSID1=MyNet'')) [] =
     Inr [(''WIFI_SSID1'', [CHR 0x5C, CHR 0x22] @ ''MyNet'' @ [CHR 0x5C, CHR 0x22]),
          (''WIFI_PASS1'', [CHR 0x5C, CHR 0x22, CHR 0x5C, CHR 0x22]),
          (''WIFI_SSID'', [CHR 0x5C, CHR 0x22, CHR 0x5C, CHR 0x22]),
          (''WIFI_PASS'', [CHR 0x5C, CHR 0x22, CHR 0x5C, CHR 0x22]),
          (''MQTT_HOST_ONLINE'', [CHR 0x5C, CHR 0x22, CHR 0x5C, CHR 0x22]),
          (''MQTT_HOST_OFFLINE'', [CHR 0x5C, CHR 0x22] @ ''192.168.31.108'' @ [CHR 0x5C, CHR 0x22]),
          (''MQTT_PORT'', ''1883''),
          (''BACKEND_BASE'', [CHR 0x5C, CHR 0x22, CHR 0x5C, CHR 0x22]),
          (''BACKEND_HOST'', [CHR 0x5C, CHR 0x22] @ ''192.168.31.108'' @ [CHR 0x5C, CHR 0x22]),
          (''BACKEND_PORT'', ''5000''),
          (''DEVICE_ID'', [CHR 0x5C, CHR 0x22] @ ''esp32_001'' @ [CHR 0x5C, CHR 0x22])]"
  by code_simp

subsection \<open>A hash sign inside a value\<close>

lemma not_isspace_hash: "\<not> isspace CHR ''#''"
  by (simp add: isspace_def)

lemma not_isspace_quote: "\<not> isspace (CHR 0x22)" "\<not> isspace (CHR 0x27)"
  by (simp_all add: isspace_def)

lemma clean_value_wrapped:
  assumes q: "q = CHR 0x22 \<or> q = CHR 0x27"
    and w: "w = [] \<or> (hd w \<notin> {CHR 0x22, CHR 0x27} \<and> last w \<notin> {CHR 0x22, CHR 0x27})"
  shows "clean_value ([q] @ w @ [q]) = w"
proof -
  have nsp: "\<not> isspace q" using q not_isspace_quote by blast
  have s: "strip ([q] @ w @ [q]) = [q] @ w @ [q]"
    unfolding strip_def using nsp by (intro strip_with_id) simp
  have w1: "strip_chars [CHR 0x22] w = w" "strip_chars [CHR 0x27] w = w"
    unfolding strip_chars_def using w by (intro strip_with_id; auto)+
  from q show ?thesis
  proof
    assume dq: "q = CHR 0x22"
    have "strip_chars [CHR 0x22] ([q] @ w @ [q]) = w"
      unfolding strip_chars_def using w dq by (intro strip_with_sandwich) auto
    then show ?thesis unfolding clean_value_def s by (simp only: w1)
  next
    assume sq: "q = CHR 0x27"
    have "strip_chars [CHR 0x22] ([q] @ w @ [q]) = [q] @ w @ [q]"
      unfolding strip_chars_def using sq by (intro strip_with_id) simp
    moreover have "strip_chars [CHR 0x27] ([q] @ w @ [q]) = w"
      unfolding strip_chars_def using w sq by (intro strip_with_sandwich) auto
    ultimately show ?thesis unfolding clean_value_def s by (simp only:)
  qed
qed

lemma spec_kept_comment:
  assumes "\<forall>c\<in>set ind. isspace c"
  shows "\<not> spec_kept (ind @ CHR ''#'' # rest)"
proof -
  have "dropWhile isspace (ind @ CHR ''#'' # rest) = dropWhile isspace (CHR ''#'' # rest)"
    using assms by (intro dropWhile_append2) auto
  also have "\<dots> = CHR ''#'' # rest" using not_isspace_hash by simp
  finally show ?thesis by (simp add: spec_kept_def)
qed

text \<open>
  C8. A line \<open>k=qwq\<close>, where \<open>k\<close> is a trimmed key without \<open>=\<close> that does not
  start with \<open>#\<close>, \<open>q\<close> is a double or a single quote and \<open>w\<close> is any text with no
  quote at either end, stores \<open>w\<close> whole under \<open>k\<close>: a \<open>#\<close> inside \<open>w\<close> and the
  text after it stay in the value. A line is skipped as a comment when its first
  character after the leading white space is \<open>#\<close>.
\<close>

theorem parse_line_keeps_hash_in_value:
  assumes "strip k = k" and "CHR ''='' \<notin> set k" and "\<not> startswith k ''#''"
    and "q = CHR 0x22 \<or> q = CHR 0x27"
    and "w = [] \<or> (hd w \<notin> {CHR 0x22, CHR 0x27} \<and> last w \<notin> {CHR 0x22, CHR 0x27})"
    and "\<forall>c\<in>set ind. isspace c"
  shows "parse_line (k @ ''='' @ [q] @ w @ [q]) data = Inr (data(k \<mapsto> w))
     \<and> parse_line (ind @ CHR ''#'' # rest) data = Inr data"
proof
  let ?raw = "k @ ''='' @ [q] @ w @ [q]" and ?ne = "\<lambda>c. c \<noteq> CHR ''=''"
  have k_ne: "\<And>x. x \<in> set k \<Longrightarrow> x \<noteq> CHR ''=''" using assms(2) by blast
  have "takeWhile ?ne ?raw = k @ takeWhile ?ne (''='' @ [q] @ w @ [q])"
    using k_ne by (intro takeWhile_append2) auto
  then have tk: "takeWhile ?ne ?raw = k" by simp
  have key: "spec_key ?raw = k" unfolding spec_key_def tk by (rule assms(1))
  have "dropWhile ?ne ?raw = dropWhile ?ne (''='' @ [q] @ w @ [q])"
    using k_ne by (intro dropWhile_append2) auto
  then have "tl (dropWhile ?ne ?raw) = [q] @ w @ [q]" by simp
  then have val: "spec_value ?raw = w"
    unfolding spec_value_def using clean_value_wrapped [OF assms(4,5)] by (simp only:)
  have kept: "spec_kept ?raw"
  proof (cases k)
    case Nil
    then show ?thesis using not_isspace_eq by (simp add: spec_kept_def)
  next
    case (Cons c cs)
    have "strip_with isspace k \<noteq> []" using assms(1) Cons by (simp add: strip_def)
    then have "\<not> isspace (hd (strip_with isspace k))" by (rule strip_with_ends)
    then have "\<not> isspace c" using assms(1) Cons by (simp add: strip_def)
    moreover have "c \<noteq> CHR ''#''" using assms(3) Cons by (simp add: startswith_def)
    ultimately show ?thesis using Cons by (simp add: spec_kept_def)
  qed
  show "parse_line ?raw data = Inr (data(k \<mapsto> w))"
    using kept key val by (rule parse_line_kept)
  show "parse_line (ind @ CHR ''#'' # rest) data = Inr data"
    using spec_kept_comment [OF assms(6)] by (simp add: parse_line_spec)
qed

theorem parse_line_keeps_hash_in_value_witness:
  "parse_line (''KEY='' @ [CHR 0x22] @ ''a#b'' @ [CHR 0x22]) Map.empty
       = Inr (Map.empty(''KEY'' \<mapsto> ''a#b''))
   \<and> parse_line (''  # KEY=1'') (Map.empty(''KEY'' \<mapsto> ''0''))
       = Inr (Map.empty(''KEY'' \<mapsto> ''0''))"
proof -
  have h1: "strip ''KEY'' = ''KEY''" by code_simp
  have h2: "CHR ''='' \<notin> set ''KEY''" by simp
  have h3: "\<not> startswith ''KEY'' ''#''" by (simp add: startswith_def)
  have h4: "CHR 0x22 = CHR 0x22 \<or> CHR 0x22 = CHR 0x27" by simp
  have h5: "''a#b'' = [] \<or> (hd ''a#b'' \<notin> {CHR 0x22, CHR 0x27}
      \<and> last ''a#b'' \<notin> {CHR 0x22, CHR 0x27})" by simp
  have h6: "\<forall>c\<in>set ''  ''. isspace c" by (simp add: isspace_def)
  show ?thesis
    using parse_line_keeps_hash_in_value [OF h1 h2 h3 h4 h5 h6, of "Map.empty"]
      parse_line_keeps_hash_in_value [OF h1 h2 h3 h4 h5 h6,
        of "Map.empty(''KEY'' \<mapsto> ''0'')" "'' KEY=1''"]
    by simp
qed

end
